theory Spec2Isabelle
  imports Main "HOL-Library.Word"
begin

unbundle bit_operations_syntax

section \<open>Field arithmetic: \<open>FeDivPowM1\<close>\<close>

subsection \<open>The store\<close>

text \<open>
  \<open>FeDivPowM1(r, u, v *FieldElement)\<close> works on pointers. The five temporaries
  \<open>v3, uv7, t0, t1, t2\<close> are variables of the call's own frame, so no pointer the
  caller passes can alias them; the pointers \<open>r\<close>, \<open>u\<close> and \<open>v\<close> are locations
  of the caller and may alias each other. A store maps every location to the field
  element it holds. Go sets the temporaries to zero on entry; the function writes each of
  them before it reads it, so the model leaves their initial contents open.
\<close>

datatype frame_var = v3 | uv7 | t0 | t1 | t2

datatype ptr = Ext nat | Tmp frame_var

type_synonym 'fe store = "ptr \<Rightarrow> 'fe"

text \<open>
  Modelled from the spec: \<open>FeSquare\<close> and \<open>FeMul\<close> (and the type \<open>FieldElement\<close>) are
  not among the source files. By section 4.1 of the specification they take and return field
  elements, never fail and never change an operand; the call \<open>FeMul(h, f, g)\<close> stores the
  product of \<open>*f\<close> and \<open>*g\<close> in \<open>*h\<close>, and \<open>FeSquare(h, f)\<close> the square of \<open>*f\<close>.
  Both operands are read before the destination is written, so a destination may be one of
  the operands (the source relies on it: \<open>FeMul(&v3, &v3, v)\<close>). The arithmetic on the
  representation itself is a parameter: \<open>mul\<close> and \<open>sq\<close>.
\<close>

definition FeSquare :: "('fe \<Rightarrow> 'fe) \<Rightarrow> ptr \<Rightarrow> ptr \<Rightarrow> 'fe store \<Rightarrow> 'fe store" where
  "FeSquare sq h f s = s(h := sq (s f))"

definition FeMul :: "('fe \<Rightarrow> 'fe \<Rightarrow> 'fe) \<Rightarrow> ptr \<Rightarrow> ptr \<Rightarrow> ptr \<Rightarrow> 'fe store \<Rightarrow> 'fe store" where
  "FeMul mul h f g s = s(h := mul (s f) (s g))"

text \<open>
  The loops of the source are all of the form \<open>for i := 0; i < n; i++ { body }\<close> with a
  body that does not read \<open>i\<close>: the body runs \<open>n\<close> times.
\<close>

fun for_range :: "nat \<Rightarrow> ('s \<Rightarrow> 's) \<Rightarrow> 's \<Rightarrow> 's" where
  "for_range 0 body s = s"
| "for_range (Suc n) body s = for_range n body (body s)"

subsection \<open>The function\<close>

definition FeDivPowM1 ::
  "('fe \<Rightarrow> 'fe \<Rightarrow> 'fe) \<Rightarrow> ('fe \<Rightarrow> 'fe) \<Rightarrow> nat \<Rightarrow> nat \<Rightarrow> nat \<Rightarrow> 'fe store \<Rightarrow> 'fe store" where
  "FeDivPowM1 mul sq r u v s0 =
    (let
      \<comment> \<open>v3 = v^3\<close>
      s = FeSquare sq (Tmp v3) (Ext v) s0;
      s = FeMul mul (Tmp v3) (Tmp v3) (Ext v) s;
      \<comment> \<open>uv7 = u * v^7\<close>
      s = FeSquare sq (Tmp uv7) (Tmp v3) s;
      s = FeMul mul (Tmp uv7) (Tmp uv7) (Ext v) s;
      s = FeMul mul (Tmp uv7) (Tmp uv7) (Ext u) s;
      \<comment> \<open>Step 1\<close>
      s = FeSquare sq (Tmp t0) (Tmp uv7) s;
      s = FeSquare sq (Tmp t1) (Tmp t0) s;
      s = FeSquare sq (Tmp t1) (Tmp t1) s;
      s = FeMul mul (Tmp t1) (Tmp uv7) (Tmp t1) s;
      s = FeMul mul (Tmp t0) (Tmp t0) (Tmp t1) s;
      s = FeSquare sq (Tmp t0) (Tmp t0) s;
      s = FeMul mul (Tmp t0) (Tmp t1) (Tmp t0) s;
      \<comment> \<open>Step 2\<close>
      s = FeSquare sq (Tmp t1) (Tmp t0) s;
      s = for_range 4 (FeSquare sq (Tmp t1) (Tmp t1)) s;
      s = FeMul mul (Tmp t0) (Tmp t1) (Tmp t0) s;
      \<comment> \<open>Step 3\<close>
      s = FeSquare sq (Tmp t1) (Tmp t0) s;
      s = for_range 9 (FeSquare sq (Tmp t1) (Tmp t1)) s;
      s = FeMul mul (Tmp t1) (Tmp t1) (Tmp t0) s;
      \<comment> \<open>Step 4\<close>
      s = FeSquare sq (Tmp t2) (Tmp t1) s;
      s = for_range 19 (FeSquare sq (Tmp t2) (Tmp t2)) s;
      s = FeMul mul (Tmp t1) (Tmp t2) (Tmp t1) s;
      \<comment> \<open>Step 5\<close>
      s = for_range 10 (FeSquare sq (Tmp t1) (Tmp t1)) s;
      s = FeMul mul (Tmp t0) (Tmp t1) (Tmp t0) s;
      \<comment> \<open>Step 6\<close>
      s = FeSquare sq (Tmp t1) (Tmp t0) s;
      s = for_range 49 (FeSquare sq (Tmp t1) (Tmp t1)) s;
      s = FeMul mul (Tmp t1) (Tmp t1) (Tmp t0) s;
      \<comment> \<open>Step 7\<close>
      s = FeSquare sq (Tmp t2) (Tmp t1) s;
      s = for_range 99 (FeSquare sq (Tmp t2) (Tmp t2)) s;
      s = FeMul mul (Tmp t1) (Tmp t2) (Tmp t1) s;
      \<comment> \<open>Step 8\<close>
      s = for_range 50 (FeSquare sq (Tmp t1) (Tmp t1)) s;
      s = FeMul mul (Tmp t0) (Tmp t1) (Tmp t0) s;
      s = FeSquare sq (Tmp t0) (Tmp t0) s;
      s = FeSquare sq (Tmp t0) (Tmp t0) s;
      \<comment> \<open>t0 = (uv7)^((q-5)/8)\<close>
      s = FeMul mul (Tmp t0) (Tmp t0) (Tmp uv7) s;
      \<comment> \<open>Multiply by v^3\<close>
      s = FeMul mul (Tmp t0) (Tmp t0) (Tmp v3) s;
      \<comment> \<open>Finally, multiply by u => r\<close>
      s = FeMul mul (Ext r) (Tmp t0) (Ext u) s
    in s)"

text \<open>The field prime \<open>p = 2^255 - 19\<close> and the exponent \<open>(p - 5) / 8\<close>.\<close>

definition fe_p :: nat where
  "fe_p = 2 ^ 255 - 19"

definition pm5d8 :: nat where
  "pm5d8 = (fe_p - 5) div 8"

text \<open>
  The claim compares the fixed chain with a generic modular-exponentiation loop. This is
  the usual right-to-left square-and-multiply loop, written from the specification's words
  (it is not part of the source): \<open>acc\<close> collects the product, \<open>b\<close> is squared and
  \<open>e\<close> halved in every round.
\<close>

function modexp_loop :: "nat \<Rightarrow> nat \<Rightarrow> nat \<Rightarrow> nat \<Rightarrow> nat" where
  "modexp_loop acc b e m =
     (if e = 0 then acc
      else modexp_loop (if odd e then (acc * b) mod m else acc) ((b * b) mod m) (e div 2) m)"
  by pat_completeness auto
termination
  by (relation "measure (\<lambda>(acc, b, e, m). e)") auto

declare modexp_loop.simps [simp del]

definition generic_modexp :: "nat \<Rightarrow> nat \<Rightarrow> nat \<Rightarrow> nat" where
  "generic_modexp b e m = modexp_loop (1 mod m) b e m"

subsection \<open>A reference representation\<close>

text \<open>
  Modelled from the spec: section 4.1 describes multiplication and squaring as taking and
  returning canonical-range field elements. In this instance a field element is its
  canonical value, a natural number below \<open>p\<close>. The theorems below hold for any
  representation whose \<open>mul\<close> and \<open>sq\<close> multiply modulo \<open>p\<close>; this one shows
  that their hypotheses can be met.
\<close>

definition fe_reduced :: "nat \<Rightarrow> bool" where
  "fe_reduced f = (f < fe_p)"

definition fe_mul_ref :: "nat \<Rightarrow> nat \<Rightarrow> nat" where
  "fe_mul_ref f g = (f * g) mod fe_p"

definition fe_square_ref :: "nat \<Rightarrow> nat" where
  "fe_square_ref f = (f * f) mod fe_p"

definition example_store :: "nat store" where
  "example_store = (\<lambda>_. 0)(Ext 1 := 2, Ext 2 := 3)"

subsection \<open>Exponent bookkeeping\<close>

text \<open>
  \<open>FeDivPowM1\<close> is polymorphic in the representation, so it can also be run on exponents
  instead of field elements: a location holds \<open>Some (a, b)\<close> when its content is known to
  be \<open>u^a * v^b\<close>, and \<open>None\<close> when nothing is known about it (a temporary that has not
  been written yet). Multiplying adds exponents, squaring doubles them.
\<close>

fun amul :: "(nat \<times> nat) option \<Rightarrow> (nat \<times> nat) option \<Rightarrow> (nat \<times> nat) option" where
  "amul (Some (a, b)) (Some (c, d)) = Some (a + c, b + d)"
| "amul _ _ = None"

fun asq :: "(nat \<times> nat) option \<Rightarrow> (nat \<times> nat) option" where
  "asq (Some (a, b)) = Some (2 * a, 2 * b)"
| "asq None = None"

fun denotes ::
  "('fe \<Rightarrow> bool) \<Rightarrow> ('fe \<Rightarrow> nat) \<Rightarrow> nat \<Rightarrow> nat \<Rightarrow> 'fe \<Rightarrow> (nat \<times> nat) option \<Rightarrow> bool" where
  "denotes ok val U V x None = True"
| "denotes ok val U V x (Some (a, b)) = (ok x \<and> val x mod fe_p = (U ^ a * V ^ b) mod fe_p)"

definition store_denotes ::
  "('fe \<Rightarrow> bool) \<Rightarrow> ('fe \<Rightarrow> nat) \<Rightarrow> nat \<Rightarrow> nat \<Rightarrow> 'fe store \<Rightarrow> (nat \<times> nat) option store \<Rightarrow> bool" where
  "store_denotes ok val U V s A = (\<forall>x. denotes ok val U V (s x) (A x))"

section \<open>Key generation: \<open>GenerateKey\<close>\<close>

type_synonym byte = "8 word"

subsection \<open>The randomness reader\<close>

text \<open>
  \<open>rand\<close> is an \<open>io.Reader\<close>: it hands out the bytes it has, in order, and answers with
  an error once they are used up (\<open>EOF\<close> for an ordinary end of stream, any other error for
  a failing source). \<open>io.ReadFull\<close> belongs to the Go standard library; by its contract it
  either fills the whole buffer and returns no error, or returns an error: \<open>EOF\<close> if no
  byte was read, \<open>ErrUnexpectedEOF\<close> if the stream ended after some but not all bytes, and
  otherwise the reader's own error.
\<close>

datatype io_error = EOF | ErrUnexpectedEOF | ReadError string

datatype reader = Reader (avail: "byte list") (failure: io_error)

definition ReadFull :: "reader \<Rightarrow> nat \<Rightarrow> io_error + byte list" where
  "ReadFull rd n =
     (if n \<le> length (avail rd) then Inr (take n (avail rd))
      else Inl (if failure rd = EOF \<and> avail rd \<noteq> [] then ErrUnexpectedEOF else failure rd))"

text \<open>Go's builtin \<open>copy(dst, src)\<close> overwrites the first \<open>min(len(dst), len(src))\<close>
  elements of \<open>dst\<close>.\<close>

definition copy_slice :: "'a list \<Rightarrow> 'a list \<Rightarrow> 'a list" where
  "copy_slice dst src = take (min (length dst) (length src)) src @ drop (length src) dst"

subsection \<open>The function\<close>

text \<open>
  \<open>sha512\<close> (Go's \<open>crypto/sha512\<close>), \<open>GeScalarMultBase\<close> and \<open>ToBytes\<close> are not among
  the source files; they are parameters of the model. \<open>GeScalarMultBase\<close> maps the 32-byte
  scalar to a group element, \<open>ToBytes\<close> maps a group element to the bytes it writes
  into the \<open>[32]byte\<close> array it is given. The result carries, next to the three values the function
  returns (\<open>nil\<close> is \<open>None\<close>), the list of calls to the hash and to the scalar
  multiplication in the order they were made, with their arguments. Indexing the digest
  slice out of range panics in Go; that is the \<open>Inl\<close> branch.
\<close>

datatype go_panic = IndexOutOfRange

datatype call = Call_sha512 "byte list" | Call_GeScalarMultBase "byte list"

record keygen_result =
  publicKey :: "byte list option"
  privateKey :: "byte list option"
  err :: "io_error option"
  calls :: "call list"

definition GenerateKey ::
  "(byte list \<Rightarrow> byte list) \<Rightarrow> (byte list \<Rightarrow> 'ge) \<Rightarrow> ('ge \<Rightarrow> byte list) \<Rightarrow> reader
     \<Rightarrow> go_panic + keygen_result" where
  "GenerateKey sha512 GeScalarMultBase ToBytes rand =
    (let privateKey0 = replicate 64 (0::byte);
         publicKey0 = replicate 32 (0::byte) in
     case ReadFull rand 32 of
       Inl e \<Rightarrow> Inr \<lparr>publicKey = None, privateKey = None, err = Some e, calls = []\<rparr>
     | Inr seed \<Rightarrow>
        (let privateKey1 = copy_slice (take 32 privateKey0) seed @ drop 32 privateKey0;
             digest = sha512 (take 32 privateKey1)
         in if length digest \<le> 31 then Inl IndexOutOfRange
            else
             (let digest = digest[0 := digest ! 0 AND 248];
                  digest = digest[31 := digest ! 31 AND 127];
                  digest = digest[31 := digest ! 31 OR 64];
                  hBytes = copy_slice (replicate 32 0) digest;
                  A = GeScalarMultBase hBytes;
                  publicKey1 = copy_slice publicKey0 (ToBytes A);
                  privateKey2 = take 32 privateKey1 @ copy_slice (drop 32 privateKey1) publicKey1
              in Inr \<lparr>publicKey = Some publicKey1, privateKey = Some privateKey2, err = None,
                       calls = [Call_sha512 (take 32 privateKey1), Call_GeScalarMultBase hBytes]\<rparr>)))"

text \<open>
  The standard Edwards clamping in the words of the specification: of the first half of
  the digest, clear the low three bits of the first byte and the top bit of the last byte,
  and set the second-highest bit of the last byte.
\<close>

definition clamp :: "byte list \<Rightarrow> byte list" where
  "clamp digest = (take 32 digest)[0 := digest ! 0 AND 248, 31 := (digest ! 31 AND 127) OR 64]"

text \<open>Stand-ins for the three parameters, used to run the model on concrete inputs.\<close>

definition stub_hash :: "byte list \<Rightarrow> byte list" where
  "stub_hash bs = take 64 (bs @ bs @ replicate 64 255)"

definition stub_mult :: "byte list \<Rightarrow> byte list" where
  "stub_mult h = rev h"

definition stub_encode :: "byte list \<Rightarrow> byte list" where
  "stub_encode A = take 32 (A @ replicate 32 0)"

section \<open>Keys and signatures\<close>

text \<open>
  None of the functions of this section is among the source files: the source has the test
  that calls them (\<open>TestNonStandardSignatures\<close>) and nothing else. They are modelled from
  the specification, sections 3, 4.4, 4.5, 6 and 7.
\<close>

datatype error = InvalidLength | InvalidEncoding | InvalidScalar | InvalidSecret | ZeroNonce | ZeroR

subsection \<open>Byte strings as numbers\<close>

fun le_decode :: "byte list \<Rightarrow> nat" where
  "le_decode [] = 0"
| "le_decode (b # bs) = unat b + 256 * le_decode bs"

fun le_encode :: "nat \<Rightarrow> nat \<Rightarrow> byte list" where
  "le_encode 0 d = []"
| "le_encode (Suc n) d = word_of_nat (d mod 256) # le_encode n (d div 256)"

definition be_decode :: "byte list \<Rightarrow> nat" where
  "be_decode bs = le_decode (rev bs)"

definition be_encode :: "nat \<Rightarrow> nat \<Rightarrow> byte list" where
  "be_encode n d = rev (le_encode n d)"

subsection \<open>\<open>ParseSignature\<close>\<close>

text \<open>
  Modelled from the spec: \<open>ParseSignature\<close> and the type \<open>Signature\<close> are missing from
  the source files. Section 4.5: it fails with \<open>InvalidLength\<close> unless the input is exactly
  64 bytes and otherwise always succeeds; section 3: a signature is the pair \<open>(R, S)\<close>,
  parsed from two 32-byte big-endian halves.
\<close>

datatype Signature = Signature (GetR: int) (GetS: int)

definition ParseSignature :: "byte list \<Rightarrow> error + Signature" where
  "ParseSignature bs =
     (if length bs \<noteq> 64 then Inl InvalidLength
      else Inr (Signature (int (be_decode (take 32 bs))) (int (be_decode (drop 32 bs)))))"

subsection \<open>\<open>ParsePubKey\<close>\<close>

text \<open>
  Modelled from the spec: \<open>ParsePubKey\<close> is missing from the source files. Section 4.4:
  it fails with \<open>InvalidLength\<close> if the input is not exactly 32 bytes and with
  \<open>InvalidEncoding\<close> if decoding fails or the result is not a curve point. The point
  decoder of section 4.3 and the curve test are parameters.
\<close>

definition ParsePubKey ::
  "(byte list \<Rightarrow> 'pt option) \<Rightarrow> ('pt \<Rightarrow> bool) \<Rightarrow> byte list \<Rightarrow> error + 'pt" where
  "ParsePubKey decode on_curve bs =
     (if length bs \<noteq> 32 then Inl InvalidLength
      else case decode bs of
             None \<Rightarrow> Inl InvalidEncoding
           | Some P \<Rightarrow> if on_curve P then Inr P else Inl InvalidEncoding)"

text \<open>The two damaged buffers of the test: one byte appended, the byte at \<open>pos\<close> removed.\<close>

definition append_byte :: "byte list \<Rightarrow> byte \<Rightarrow> byte list" where
  "append_byte bs b = bs @ [b]"

definition remove_byte :: "byte list \<Rightarrow> nat \<Rightarrow> byte list" where
  "remove_byte bs pos = take pos bs @ drop (pos + 1) bs"

subsection \<open>\<open>VerifyRS\<close>\<close>

text \<open>
  Modelled from the spec: \<open>VerifyRS\<close> is missing from the source files. Section 4.5: it
  returns false at once if \<open>R\<close> or \<open>S\<close> is zero or not strictly less than \<open>N\<close>;
  otherwise it computes \<open>w = S^-1 mod N\<close>, \<open>u1 = H(message) * w mod N\<close>,
  \<open>u2 = R * w mod N\<close>, the point \<open>u1 * Basepoint + u2 * PublicPoint\<close>, reduces its
  x-coordinate modulo \<open>N\<close> and returns whether that equals \<open>R\<close>. The group order, the hash,
  the inverse modulo \<open>N\<close>, the double-scalar multiplication and the x-coordinate are not
  given by the specification; they are the fields of \<open>curve_ops\<close>. The result is a plain
  truth value: the model has no error and no panic to return.
\<close>

record 'pt curve_ops =
  group_order :: int
  hash_scalar :: "byte list \<Rightarrow> int"
  scalar_inverse :: "int \<Rightarrow> int"
  double_scalar_mult :: "int \<Rightarrow> int \<Rightarrow> 'pt \<Rightarrow> 'pt"
  x_coordinate :: "'pt \<Rightarrow> int"

definition VerifyRS :: "'pt curve_ops \<Rightarrow> 'pt \<Rightarrow> byte list \<Rightarrow> int \<Rightarrow> int \<Rightarrow> bool" where
  "VerifyRS C pub message R S =
     (let N = group_order C in
      if R = 0 \<or> S = 0 \<or> \<not> R < N \<or> \<not> S < N then False
      else
        (let w = scalar_inverse C S;
             u1 = (hash_scalar C message * w) mod N;
             u2 = (R * w) mod N;
             P = double_scalar_mult C u1 u2 pub
         in x_coordinate C P mod N = R))"

text \<open>A small stand-in for the curve operations (the integers modulo 7 as the group),
  used to run \<open>VerifyRS\<close> on concrete inputs.\<close>

definition stub_curve :: "int curve_ops" where
  "stub_curve =
     \<lparr>group_order = 7,
      hash_scalar = (\<lambda>m. int (length m) mod 7),
      scalar_inverse = (\<lambda>s. (s ^ 5) mod 7),
      double_scalar_mult = (\<lambda>u1 u2 P. (u1 + u2 * P) mod 7),
      x_coordinate = (\<lambda>P. P)\<rparr>"

subsection \<open>\<open>PrivKeyFromScalar\<close> and \<open>Serialize\<close>\<close>

text \<open>
  Modelled from the spec: \<open>PrivKeyFromScalar\<close>, \<open>Serialize\<close> and the type \<open>PrivateKey\<close>
  are missing from the source files. Section 3: a private key owns a scalar \<open>D\<close> with
  \<open>0 < D < N\<close> and the public point \<open>D * Basepoint\<close>. Section 4.4: \<open>PrivKeyFromScalar\<close>
  interprets 32 bytes as a scalar, fails with \<open>InvalidScalar\<close> if it is not reduced modulo
  \<open>N\<close> or outside the accepted range (read here as the range of section 3), and on success
  computes the public point by fixed-base multiplication. Section 6: the scalar is
  encoded in 32 bytes. Section 6 calls the encoding little-endian, while the test passes
  \<open>D.Bytes()\<close>, which is big-endian, to \<open>PrivKeyFromScalar\<close>; the byte order is therefore a
  parameter, the same for both functions. As in the test, the constructor returns the
  private key together with the public point. The group order \<open>N\<close> and the fixed-base
  multiplication are parameters.
\<close>

datatype byte_order = LittleEndian | BigEndian

fun scalar_decode :: "byte_order \<Rightarrow> byte list \<Rightarrow> nat" where
  "scalar_decode LittleEndian bs = le_decode bs"
| "scalar_decode BigEndian bs = be_decode bs"

fun scalar_encode :: "byte_order \<Rightarrow> nat \<Rightarrow> byte list" where
  "scalar_encode LittleEndian d = le_encode 32 d"
| "scalar_encode BigEndian d = be_encode 32 d"

datatype 'pt PrivateKey = PrivateKey (GetD: nat) (Public: 'pt)

definition Serialize :: "byte_order \<Rightarrow> 'pt PrivateKey \<Rightarrow> byte list" where
  "Serialize ord k = scalar_encode ord (GetD k)"

definition PrivKeyFromScalar ::
  "byte_order \<Rightarrow> nat \<Rightarrow> (nat \<Rightarrow> 'pt) \<Rightarrow> byte list \<Rightarrow> error + ('pt PrivateKey \<times> 'pt)" where
  "PrivKeyFromScalar ord N scalar_mult_base bs =
     (if length bs \<noteq> 32 then Inl InvalidLength
      else
        (let d = scalar_decode ord bs in
         if \<not> d < N \<or> d = 0 then Inl InvalidScalar
         else Inr (PrivateKey d (scalar_mult_base d), scalar_mult_base d)))"

text \<open>The order of the prime-order subgroup of the curve, for running the model.\<close>

definition ed25519_order :: nat where
  "ed25519_order = 2 ^ 252 + 27742317777372353535851937790883648493"

section \<open>Proofs about \<open>FeDivPowM1\<close>\<close>

subsection \<open>The generic loop computes the power\<close>

lemma modexp_loop_correct: "modexp_loop acc b e m mod m = (acc * b ^ e) mod m"
proof (induction acc b e m rule: modexp_loop.induct)
  case (1 acc b e m)
  show ?case
  proof (cases "e = 0")
    case True
    then show ?thesis by (subst modexp_loop.simps) simp
  next
    case False
    have sqr: "((b * b) mod m) ^ (e div 2) mod m = b ^ (2 * (e div 2)) mod m"
      by (metis power2_eq_square power_mod power_mult)
    show ?thesis
    proof (cases "odd e")
      case True
      then have e: "e = Suc (2 * (e div 2))" by presburger
      have "modexp_loop acc b e m mod m = ((acc * b) mod m * ((b * b) mod m) ^ (e div 2)) mod m"
        using 1 [OF False] False True by (simp add: modexp_loop.simps [of acc b e m])
      also have "\<dots> = ((acc * b) * (((b * b) mod m) ^ (e div 2) mod m)) mod m"
        by (simp add: mod_mult_eq mod_mult_left_eq mod_mult_right_eq)
      also have "\<dots> = ((acc * b) * b ^ (2 * (e div 2))) mod m"
        by (simp add: sqr mod_mult_right_eq)
      also have "(acc * b) * b ^ (2 * (e div 2)) = acc * b ^ Suc (2 * (e div 2))"
        by simp
      finally show ?thesis using e by simp
    next
      case even: False
      then have e: "e = 2 * (e div 2)" by presburger
      have "modexp_loop acc b e m mod m = (acc * ((b * b) mod m) ^ (e div 2)) mod m"
        using 1 [OF False] False even by (simp add: modexp_loop.simps [of acc b e m])
      also have "\<dots> = (acc * (((b * b) mod m) ^ (e div 2) mod m)) mod m"
        by (simp add: mod_mult_right_eq)
      also have "\<dots> = (acc * b ^ (2 * (e div 2))) mod m"
        by (simp add: sqr mod_mult_right_eq)
      finally show ?thesis using e by simp
    qed
  qed
qed

lemma generic_modexp_correct: "generic_modexp b e m mod m = b ^ e mod m"
  by (simp add: generic_modexp_def modexp_loop_correct mod_mult_left_eq)

subsection \<open>Loops of squarings\<close>

lemma for_range_FeSquare: "for_range n (FeSquare sq h h) s = s(h := (sq ^^ n) (s h))"
  by (induction n arbitrary: s) (simp_all add: FeSquare_def funpow_swap1)

lemma asq_funpow: "(asq ^^ n) (Some (a, b)) = Some (2 ^ n * a, 2 ^ n * b)"
  by (induction n arbitrary: a b) (simp_all add: funpow_swap1)

subsection \<open>The run on field elements follows the run on exponents\<close>

lemma denotes_mul:
  assumes mul: "\<And>f g. ok f \<Longrightarrow> ok g \<Longrightarrow>
      ok (mul f g) \<and> val (mul f g) mod fe_p = (val f * val g) mod fe_p"
    and x: "denotes ok val U V x A" and y: "denotes ok val U V y B"
  shows "denotes ok val U V (mul x y) (amul A B)"
proof (cases A)
  case None
  then show ?thesis by simp
next
  case SA: (Some ab)
  show ?thesis
  proof (cases B)
    case None
    then show ?thesis using SA by (cases ab) simp
  next
    case SB: (Some cd)
    obtain a b where ab: "ab = (a, b)" by (cases ab)
    obtain c d where cd: "cd = (c, d)" by (cases cd)
    from x SA ab have okx: "ok x" and vx: "val x mod fe_p = (U ^ a * V ^ b) mod fe_p"
      by simp_all
    from y SB cd have oky: "ok y" and vy: "val y mod fe_p = (U ^ c * V ^ d) mod fe_p"
      by simp_all
    have "val (mul x y) mod fe_p = (val x * val y) mod fe_p"
      using mul [OF okx oky] by simp
    also have "\<dots> = ((val x mod fe_p) * (val y mod fe_p)) mod fe_p"
      by (simp add: mod_mult_eq)
    also have "\<dots> = ((U ^ a * V ^ b) * (U ^ c * V ^ d)) mod fe_p"
      by (simp add: vx vy mod_mult_eq)
    also have "(U ^ a * V ^ b) * (U ^ c * V ^ d) = U ^ (a + c) * V ^ (b + d)"
      by (simp add: power_add)
    finally show ?thesis
      using mul [OF okx oky] SA SB ab cd by simp
  qed
qed

lemma denotes_sq:
  assumes sq: "\<And>f. ok f \<Longrightarrow> ok (sq f) \<and> val (sq f) mod fe_p = (val f * val f) mod fe_p"
    and x: "denotes ok val U V x A"
  shows "denotes ok val U V (sq x) (asq A)"
proof (cases A)
  case None
  then show ?thesis by simp
next
  case (Some ab)
  obtain a b where ab: "ab = (a, b)" by (cases ab)
  from x Some ab have okx: "ok x" and vx: "val x mod fe_p = (U ^ a * V ^ b) mod fe_p"
    by simp_all
  have "val (sq x) mod fe_p = ((val x mod fe_p) * (val x mod fe_p)) mod fe_p"
    using sq [OF okx] by (simp add: mod_mult_eq)
  also have "\<dots> = ((U ^ a * V ^ b) * (U ^ a * V ^ b)) mod fe_p"
    by (simp add: vx mod_mult_eq)
  also have "(U ^ a * V ^ b) * (U ^ a * V ^ b) = U ^ (2 * a) * V ^ (2 * b)"
    by (simp add: mult_2 power_add)
  finally show ?thesis
    using sq [OF okx] Some ab by simp
qed

lemma FeMul_denotes:
  assumes "\<And>f g. ok f \<Longrightarrow> ok g \<Longrightarrow>
      ok (mul f g) \<and> val (mul f g) mod fe_p = (val f * val g) mod fe_p"
    and "store_denotes ok val U V s A"
  shows "store_denotes ok val U V (FeMul mul h f g s) (FeMul amul h f g A)"
  using assms(2) denotes_mul [of ok mul val, OF assms(1)]
  by (simp add: store_denotes_def FeMul_def)

lemma FeSquare_denotes:
  assumes "\<And>f. ok f \<Longrightarrow> ok (sq f) \<and> val (sq f) mod fe_p = (val f * val f) mod fe_p"
    and "store_denotes ok val U V s A"
  shows "store_denotes ok val U V (FeSquare sq h f s) (FeSquare asq h f A)"
  using assms(2) denotes_sq [of ok sq val, OF assms(1)]
  by (simp add: store_denotes_def FeSquare_def)

lemma for_range_denotes:
  assumes "\<And>s A. store_denotes ok val U V s A \<Longrightarrow> store_denotes ok val U V (body s) (abody A)"
    and "store_denotes ok val U V s A"
  shows "store_denotes ok val U V (for_range n body s) (for_range n abody A)"
  using assms(2) by (induction n arbitrary: s A) (simp_all add: assms(1))

lemma FeDivPowM1_denotes:
  assumes mul: "\<And>f g. ok f \<Longrightarrow> ok g \<Longrightarrow>
      ok (mul f g) \<and> val (mul f g) mod fe_p = (val f * val g) mod fe_p"
    and sq: "\<And>f. ok f \<Longrightarrow> ok (sq f) \<and> val (sq f) mod fe_p = (val f * val f) mod fe_p"
    and s: "store_denotes ok val U V s A"
  shows "store_denotes ok val U V (FeDivPowM1 mul sq r u v s) (FeDivPowM1 amul asq r u v A)"
  unfolding FeDivPowM1_def Let_def
  by (intro FeMul_denotes [of ok mul val, OF mul] FeSquare_denotes [of ok sq val, OF sq]
      for_range_denotes s)

subsection \<open>The exponents the chain reaches\<close>

lemma pm5d8_eq: "pm5d8 = 2 ^ 252 - 3"
  by (simp add: pm5d8_def fe_p_def)

lemma exponents_distinct:
  "A (Ext u) = Some (1, 0) \<Longrightarrow> A (Ext v) = Some (0, 1) \<Longrightarrow>
   FeDivPowM1 amul asq r u v A (Ext r) = Some (pm5d8 + 1, 7 * pm5d8 + 3)"
  by (simp add: FeDivPowM1_def Let_def FeMul_def FeSquare_def for_range_FeSquare asq_funpow
      pm5d8_def fe_p_def)

lemma exponents_aliased:
  "A (Ext v) = Some (0, 1) \<Longrightarrow>
   FeDivPowM1 amul asq r v v A (Ext r) = Some (0, 8 * pm5d8 + 4)"
  by (simp add: FeDivPowM1_def Let_def FeMul_def FeSquare_def for_range_FeSquare asq_funpow
      pm5d8_def fe_p_def)

lemma monomial_eq: "(U::nat) ^ (e + 1) * V ^ (7 * e + 3) = U * V ^ 3 * (U * V ^ 7) ^ e"
proof -
  have "(U * V ^ 7) ^ e = U ^ e * V ^ (7 * e)"
    by (simp add: power_mult_distrib power_mult)
  then show ?thesis
    by (simp add: power_add)
qed

lemma FeDivPowM1_monomial:
  fixes val :: "'fe \<Rightarrow> nat"
  assumes mul: "\<And>f g. ok f \<Longrightarrow> ok g \<Longrightarrow>
      ok (mul f g) \<and> val (mul f g) mod fe_p = (val f * val g) mod fe_p"
    and sq: "\<And>f. ok f \<Longrightarrow> ok (sq f) \<and> val (sq f) mod fe_p = (val f * val f) mod fe_p"
    and u: "ok (s (Ext u))" and v: "ok (s (Ext v))"
  shows "ok (FeDivPowM1 mul sq r u v s (Ext r)) \<and>
     val (FeDivPowM1 mul sq r u v s (Ext r)) mod fe_p =
       (val (s (Ext u)) * val (s (Ext v)) ^ 3 * (val (s (Ext u)) * val (s (Ext v)) ^ 7) ^ pm5d8)
         mod fe_p"
proof -
  define U where "U = val (s (Ext u))"
  define V where "V = val (s (Ext v))"
  define A where "A = (\<lambda>x. if x = Ext v then Some (0::nat, 1::nat)
                           else if x = Ext u then Some (1, 0) else None)"
  let ?res = "FeDivPowM1 mul sq r u v s (Ext r)"
  have sA: "store_denotes ok val U V s A"
    using u v by (auto simp: store_denotes_def A_def U_def V_def)
  have fin: "denotes ok val U V ?res (FeDivPowM1 amul asq r u v A (Ext r))"
    using FeDivPowM1_denotes [of ok mul val sq U V s A r u v, OF mul sq sA]
    by (simp add: store_denotes_def)
  have key: "ok ?res \<and> val ?res mod fe_p = (U ^ (pm5d8 + 1) * V ^ (7 * pm5d8 + 3)) mod fe_p"
  proof (cases "u = v")
    case True
    then have UV: "U = V" by (simp add: U_def V_def)
    have "FeDivPowM1 amul asq r u v A (Ext r) = Some (0, 8 * pm5d8 + 4)"
      using True exponents_aliased [of A v r] by (simp add: A_def)
    with fin have "ok ?res \<and> val ?res mod fe_p = V ^ (8 * pm5d8 + 4) mod fe_p"
      by simp
    moreover have "V ^ (8 * pm5d8 + 4) = U ^ (pm5d8 + 1) * V ^ (7 * pm5d8 + 3)"
    proof -
      have "8 * pm5d8 + 4 = (pm5d8 + 1) + (7 * pm5d8 + 3)" by simp
      then show ?thesis unfolding UV by (simp only: power_add)
    qed
    ultimately show ?thesis by simp
  next
    case False
    have "FeDivPowM1 amul asq r u v A (Ext r) = Some (pm5d8 + 1, 7 * pm5d8 + 3)"
      using False exponents_distinct [of A u v r] by (simp add: A_def)
    with fin show ?thesis by simp
  qed
  show ?thesis
    using key unfolding monomial_eq U_def V_def .
qed

lemma FeDivPowM1_unwritten:
  "a \<noteq> r \<Longrightarrow> FeDivPowM1 mul sq r u v s (Ext a) = s (Ext a)"
  by (simp add: FeDivPowM1_def Let_def FeMul_def FeSquare_def for_range_FeSquare)

lemma FeDivPowM1_temporaries:
  "s (Ext u) = s' (Ext u) \<Longrightarrow> s (Ext v) = s' (Ext v) \<Longrightarrow>
   FeDivPowM1 mul sq r u v s (Ext r) = FeDivPowM1 mul sq r u v s' (Ext r)"
  by (simp add: FeDivPowM1_def Let_def FeMul_def FeSquare_def for_range_FeSquare)

lemma fe_p_pos: "0 < fe_p"
  by (simp add: fe_p_def)

lemma fe_mul_ref_ok:
  "fe_reduced (fe_mul_ref f g) \<and> fe_mul_ref f g mod fe_p = (f * g) mod fe_p"
  using fe_p_pos by (simp add: fe_reduced_def fe_mul_ref_def)

lemma fe_square_ref_ok:
  "fe_reduced (fe_square_ref f) \<and> fe_square_ref f mod fe_p = (f * f) mod fe_p"
  using fe_p_pos by (simp add: fe_reduced_def fe_square_ref_def)

lemma example_store_u: "example_store (Ext 1) = 2"
  by (simp add: example_store_def)

lemma example_store_v: "example_store (Ext 2) = 3"
  by (simp add: example_store_def)

lemma fe_reduced_small: "fe_reduced 2" "fe_reduced 3"
  by (simp_all add: fe_reduced_def fe_p_def)

text \<open>
  C1. For all field elements \<open>u\<close> and \<open>v\<close>, \<open>FeDivPowM1(r, u, v)\<close> leaves in \<open>r\<close> the value
  \<open>u * v^3 * (u * v^7)^((p - 5) / 8) mod p\<close> with \<open>p = 2^255 - 19\<close>; the fixed chain raises
  \<open>u * v^7\<close> to the exponent \<open>(p - 5) / 8 = 2^252 - 3\<close>, as the generic square-and-multiply
  loop does.
\<close>

theorem FeDivPowM1_value:
  fixes val :: "'fe \<Rightarrow> nat"
  assumes mul: "\<And>f g. ok f \<Longrightarrow> ok g \<Longrightarrow>
      ok (mul f g) \<and> val (mul f g) mod fe_p = (val f * val g) mod fe_p"
    and sq: "\<And>f. ok f \<Longrightarrow> ok (sq f) \<and> val (sq f) mod fe_p = (val f * val f) mod fe_p"
    and u: "ok (s (Ext u))" and v: "ok (s (Ext v))"
  shows "ok (FeDivPowM1 mul sq r u v s (Ext r)) \<and>
     val (FeDivPowM1 mul sq r u v s (Ext r)) mod fe_p =
       (val (s (Ext u)) * val (s (Ext v)) ^ 3 *
        (val (s (Ext u)) * val (s (Ext v)) ^ 7) ^ ((fe_p - 5) div 8)) mod fe_p \<and>
     fe_p = 2 ^ 255 - 19 \<and> (fe_p - 5) div 8 = 2 ^ 252 - 3 \<and>
     val (FeDivPowM1 mul sq r u v s (Ext r)) mod fe_p =
       (val (s (Ext u)) * val (s (Ext v)) ^ 3 *
        generic_modexp (val (s (Ext u)) * val (s (Ext v)) ^ 7) ((fe_p - 5) div 8) fe_p) mod fe_p"
proof -
  let ?res = "FeDivPowM1 mul sq r u v s (Ext r)"
  let ?c = "val (s (Ext u)) * val (s (Ext v)) ^ 3"
  let ?x = "val (s (Ext u)) * val (s (Ext v)) ^ 7"
  have main: "ok ?res \<and> val ?res mod fe_p = (?c * ?x ^ pm5d8) mod fe_p"
    by (rule FeDivPowM1_monomial [OF mul sq u v])
  have "(?c * generic_modexp ?x pm5d8 fe_p) mod fe_p
      = (?c * (generic_modexp ?x pm5d8 fe_p mod fe_p)) mod fe_p"
    by (simp add: mod_mult_right_eq)
  also have "\<dots> = (?c * (?x ^ pm5d8 mod fe_p)) mod fe_p"
    by (simp only: generic_modexp_correct)
  also have "\<dots> = (?c * ?x ^ pm5d8) mod fe_p"
    by (simp add: mod_mult_right_eq)
  finally have loop: "(?c * generic_modexp ?x pm5d8 fe_p) mod fe_p = (?c * ?x ^ pm5d8) mod fe_p" .
  have e: "(fe_p - 5) div 8 = 2 ^ 252 - 3"
    using pm5d8_eq by (simp only: pm5d8_def)
  have p: "fe_p = 2 ^ 255 - 19"
    by (rule fe_p_def)
  from main loop have gen: "val ?res mod fe_p = (?c * generic_modexp ?x pm5d8 fe_p) mod fe_p"
    by simp
  from main gen e p show ?thesis
    unfolding pm5d8_def by blast
qed

theorem FeDivPowM1_value_witness:
  "fe_reduced 2 \<and> fe_reduced 3 \<and>
   fe_reduced (FeDivPowM1 fe_mul_ref fe_square_ref 0 1 2 example_store (Ext 0)) \<and>
   FeDivPowM1 fe_mul_ref fe_square_ref 0 1 2 example_store (Ext 0) mod fe_p =
     (2 * 3 ^ 3 * (2 * 3 ^ 7) ^ ((fe_p - 5) div 8)) mod fe_p \<and>
   FeDivPowM1 fe_mul_ref fe_square_ref 0 1 2 example_store (Ext 0) mod fe_p =
     (2 * 3 ^ 3 * generic_modexp (2 * 3 ^ 7) ((fe_p - 5) div 8) fe_p) mod fe_p"
proof -
  have u: "fe_reduced (example_store (Ext 1))"
    by (simp only: example_store_u fe_reduced_small)
  have v: "fe_reduced (example_store (Ext 2))"
    by (simp only: example_store_v fe_reduced_small)
  note inst = FeDivPowM1_value [of fe_reduced fe_mul_ref "\<lambda>x. x" fe_square_ref example_store 1 2 0,
      OF fe_mul_ref_ok fe_square_ref_ok u v]
  from inst fe_reduced_small show ?thesis
    unfolding example_store_u example_store_v by blast
qed

text \<open>
  C9. \<open>FeDivPowM1(r, u, v)\<close> does not change its operands: when \<open>r\<close> is a location
  different from \<open>u\<close> and from \<open>v\<close>, both hold after the call what they held before. Of
  the caller's locations only \<open>r\<close> is written, and what is written there does not depend
  on what the temporaries held.
\<close>

theorem FeDivPowM1_frame:
  assumes "r \<noteq> u" and "r \<noteq> v"
  shows "FeDivPowM1 mul sq r u v s (Ext u) = s (Ext u) \<and>
     FeDivPowM1 mul sq r u v s (Ext v) = s (Ext v) \<and>
     (\<forall>a. a \<noteq> r \<longrightarrow> FeDivPowM1 mul sq r u v s (Ext a) = s (Ext a)) \<and>
     (\<forall>s'. (\<forall>a. s' (Ext a) = s (Ext a)) \<longrightarrow>
        (\<forall>a. FeDivPowM1 mul sq r u v s' (Ext a) = FeDivPowM1 mul sq r u v s (Ext a)))"
proof (intro conjI allI impI)
  show "FeDivPowM1 mul sq r u v s (Ext u) = s (Ext u)"
    using assms(1) by (simp add: FeDivPowM1_unwritten)
  show "FeDivPowM1 mul sq r u v s (Ext v) = s (Ext v)"
    using assms(2) by (simp add: FeDivPowM1_unwritten)
next
  fix a assume "a \<noteq> r"
  then show "FeDivPowM1 mul sq r u v s (Ext a) = s (Ext a)"
    by (rule FeDivPowM1_unwritten)
next
  fix s' a assume same: "\<forall>a. s' (Ext a) = s (Ext a)"
  show "FeDivPowM1 mul sq r u v s' (Ext a) = FeDivPowM1 mul sq r u v s (Ext a)"
  proof (cases "a = r")
    case True
    then show ?thesis
      using same FeDivPowM1_temporaries [of s' u s v mul sq r] by simp
  next
    case False
    then show ?thesis
      using same by (simp add: FeDivPowM1_unwritten)
  qed
qed

theorem FeDivPowM1_frame_witness:
  "(0::nat) \<noteq> 1 \<and> (0::nat) \<noteq> 2 \<and>
   FeDivPowM1 fe_mul_ref fe_square_ref 0 1 2 example_store (Ext 1) = 2 \<and>
   FeDivPowM1 fe_mul_ref fe_square_ref 0 1 2 example_store (Ext 2) = 3 \<and>
   FeDivPowM1 fe_mul_ref fe_square_ref 0 1 2 example_store (Ext 5) = 0"
proof -
  have d: "(0::nat) \<noteq> 1" "(0::nat) \<noteq> 2" "(5::nat) \<noteq> 0"
    by simp_all
  have five: "example_store (Ext 5) = 0"
    by (simp add: example_store_def)
  from FeDivPowM1_frame [of 0 1 2 fe_mul_ref fe_square_ref example_store, OF d(1) d(2)] d five
  show ?thesis
    unfolding example_store_u example_store_v by metis
qed

section \<open>Proofs about \<open>GenerateKey\<close>\<close>

lemma ReadFull_Inr:
  assumes "ReadFull rd n = Inr bs"
  shows "length bs = n" and "bs = take n (avail rd)"
  using assms by (auto simp: ReadFull_def min_def split: if_splits)

lemma ReadFull_short: "length (avail rd) < n \<Longrightarrow> \<exists>e. ReadFull rd n = Inl e"
  by (simp add: ReadFull_def)

lemma copy_slice_full: "length src = length dst \<Longrightarrow> copy_slice dst src = src"
  by (simp add: copy_slice_def)

lemma copy_slice_prefix: "length dst \<le> length src \<Longrightarrow> copy_slice dst src = take (length dst) src"
  by (simp add: copy_slice_def)

lemma length_clamp: "32 \<le> length digest \<Longrightarrow> length (clamp digest) = 32"
  by (simp add: clamp_def)

lemma clamp_first: "32 \<le> length digest \<Longrightarrow> clamp digest ! 0 = digest ! 0 AND 248"
  by (simp add: clamp_def)

lemma clamp_last: "32 \<le> length digest \<Longrightarrow> clamp digest ! 31 = (digest ! 31 AND 127) OR 64"
  by (simp add: clamp_def)

lemma clamp_middle:
  "32 \<le> length digest \<Longrightarrow> 0 < i \<Longrightarrow> i < 31 \<Longrightarrow> clamp digest ! i = digest ! i"
  by (simp add: clamp_def)

lemma byte_low_bits_clear:
  "\<not> bit (b AND (248::byte)) 0" "\<not> bit (b AND (248::byte)) 1" "\<not> bit (b AND (248::byte)) 2"
  by (simp_all add: bit_iff_odd_drop_bit even_and_iff)

lemma byte_high_bits:
  "\<not> bit ((b AND 127) OR (64::byte)) 7" "bit ((b AND 127) OR (64::byte)) 6"
  by (simp_all add: bit_and_iff bit_or_iff bit_iff_odd_drop_bit)

lemma GenerateKey_success:
  assumes rd: "ReadFull rand 32 = Inr seed" and len: "32 \<le> length (sha512 seed)"
  shows "GenerateKey sha512 G T rand =
     Inr \<lparr>publicKey = Some (copy_slice (replicate 32 0) (T (G (clamp (sha512 seed))))),
          privateKey = Some (seed @ copy_slice (replicate 32 0) (T (G (clamp (sha512 seed))))),
          err = None,
          calls = [Call_sha512 seed, Call_GeScalarMultBase (clamp (sha512 seed))]\<rparr>"
proof -
  from ReadFull_Inr(1) [OF rd] have ls: "length seed = 32" .
  have twice: "\<And>bs :: byte list. copy_slice (replicate 32 0) (copy_slice (replicate 32 0) bs)
      = copy_slice (replicate 32 0) bs"
    by (simp add: copy_slice_def min_def)
  have fill: "copy_slice (replicate 32 (0::byte)) seed = seed"
    using ls by (simp add: copy_slice_full)
  define dg where "dg = sha512 seed"
  have ldg: "32 \<le> length dg" using len by (simp add: dg_def)
  have h: "copy_slice (replicate 32 0) (dg[0 := dg ! 0 AND 248, 31 := dg ! 31 AND 127 OR 64])
      = clamp dg"
    using ldg by (simp add: copy_slice_prefix clamp_def take_update_swap)
  show ?thesis
    using ldg ls h by (simp add: GenerateKey_def Let_def rd fill twice flip: dg_def)
qed

lemma GenerateKey_failure:
  assumes "ReadFull rand 32 = Inl e"
  shows "GenerateKey sha512 G T rand =
     Inr \<lparr>publicKey = None, privateKey = None, err = Some e, calls = []\<rparr>"
  using assms by (simp add: GenerateKey_def)

lemma GenerateKey_panic:
  assumes "ReadFull rand 32 = Inr seed" and "length (sha512 seed) < 32"
  shows "GenerateKey sha512 G T rand = Inl IndexOutOfRange"
proof -
  from ReadFull_Inr(1) [OF assms(1)] have ls: "length seed = 32" .
  have fill: "copy_slice (replicate 32 (0::byte)) seed = seed"
    using ls by (simp add: copy_slice_full)
  show ?thesis
    using assms(2) ls by (simp add: GenerateKey_def Let_def assms(1) fill)
qed

lemma GenerateKey_no_error:
  assumes res: "GenerateKey sha512 G T rand = Inr res" and ok: "err res = None"
  shows "\<exists>seed. ReadFull rand 32 = Inr seed \<and> 32 \<le> length (sha512 seed)"
proof (cases "ReadFull rand 32")
  case (Inl e)
  with res ok show ?thesis by (auto simp: GenerateKey_failure)
next
  case (Inr seed)
  show ?thesis
  proof (cases "length (sha512 seed) < 32")
    case True
    with res Inr show ?thesis by (simp add: GenerateKey_panic)
  next
    case False
    with Inr show ?thesis by simp
  qed
qed

lemma stub_hash_length: "length (stub_hash bs) = 64"
  by (simp add: stub_hash_def)

lemma stub_encode_length: "length (stub_encode A) = 32"
  by (simp add: stub_encode_def)

text \<open>
  C4. \<open>GenerateKey\<close> clamps the first 32 bytes of the SHA-512 digest of the seed before
  the scalar multiplication: the scalar \<open>h\<close> that \<open>GeScalarMultBase\<close> is applied to, and
  from which the returned public key and the second half of the returned private key are
  computed, is the first half of the digest with byte 0 masked by 248 (low three bits
  clear) and byte 31 masked by 127 (top bit clear) and then or-ed with 64 (second-highest
  bit set); the bytes in between are those of the digest.
\<close>

theorem GenerateKey_clamps:
  assumes "ReadFull rand 32 = Inr seed" and "length (sha512 seed) = 64"
  shows "\<exists>res h. GenerateKey sha512 GeScalarMultBase ToBytes rand = Inr res \<and>
     err res = None \<and>
     publicKey res = Some (copy_slice (replicate 32 0) (ToBytes (GeScalarMultBase h))) \<and>
     privateKey res = Some (seed @ copy_slice (replicate 32 0) (ToBytes (GeScalarMultBase h))) \<and>
     (length (ToBytes (GeScalarMultBase h)) = 32 \<longrightarrow>
        publicKey res = Some (ToBytes (GeScalarMultBase h)) \<and>
        privateKey res = Some (seed @ ToBytes (GeScalarMultBase h))) \<and>
     calls res = [Call_sha512 seed, Call_GeScalarMultBase h] \<and>
     length h = 32 \<and>
     h ! 0 = sha512 seed ! 0 AND 248 \<and>
     h ! 31 = (sha512 seed ! 31 AND 127) OR 64 \<and>
     (\<forall>i. 0 < i \<and> i < 31 \<longrightarrow> h ! i = sha512 seed ! i) \<and>
     \<not> bit (h ! 0) 0 \<and> \<not> bit (h ! 0) 1 \<and> \<not> bit (h ! 0) 2 \<and>
     \<not> bit (h ! 31) 7 \<and> bit (h ! 31) 6 \<and>
     h = clamp (sha512 seed)"
proof -
  have len: "32 \<le> length (sha512 seed)" using assms(2) by simp
  let ?h = "clamp (sha512 seed)"
  let ?pub = "ToBytes (GeScalarMultBase ?h)"
  let ?res = "\<lparr>publicKey = Some (copy_slice (replicate 32 0) ?pub),
          privateKey = Some (seed @ copy_slice (replicate 32 0) ?pub),
          err = None,
          calls = [Call_sha512 seed, Call_GeScalarMultBase ?h]\<rparr>"
  have run: "GenerateKey sha512 GeScalarMultBase ToBytes rand = Inr ?res"
    by (rule GenerateKey_success [of rand seed sha512, OF assms(1) len])
  have full: "length ?pub = 32 \<longrightarrow> copy_slice (replicate 32 (0::byte)) ?pub = ?pub"
    by (simp add: copy_slice_full)
  have mid: "\<forall>i. 0 < i \<and> i < 31 \<longrightarrow> ?h ! i = sha512 seed ! i"
    using len by (simp add: clamp_middle)
  have bits: "\<not> bit (?h ! 0) 0 \<and> \<not> bit (?h ! 0) 1 \<and> \<not> bit (?h ! 0) 2 \<and>
      \<not> bit (?h ! 31) 7 \<and> bit (?h ! 31) 6"
    by (simp only: clamp_first [OF len] clamp_last [OF len] byte_low_bits_clear byte_high_bits
        simp_thms)
  show ?thesis
    apply (rule exI [of _ ?res])
    apply (rule exI [of _ ?h])
    using run full mid bits length_clamp [OF len] clamp_first [OF len] clamp_last [OF len]
    apply simp
    done
qed

theorem GenerateKey_clamps_witness:
  "ReadFull (Reader (replicate 40 1) EOF) 32 = Inr (replicate 32 1) \<and>
   length (stub_hash (replicate 32 1)) = 64 \<and>
   (\<exists>res h pub. GenerateKey stub_hash stub_mult stub_encode (Reader (replicate 40 1) EOF) = Inr res \<and>
      calls res = [Call_sha512 (replicate 32 1), Call_GeScalarMultBase h] \<and>
      length h = 32 \<and> h ! 0 = 0 \<and> h ! 1 = 1 \<and> h ! 31 = 65 \<and>
      publicKey res = Some pub \<and> privateKey res = Some (replicate 32 1 @ pub) \<and>
      pub = stub_encode (stub_mult h) \<and> pub ! 0 = 65 \<and> pub ! 30 = 1 \<and> pub ! 31 = 0)"
proof -
  have rd: "ReadFull (Reader (replicate 40 1) EOF) 32 = Inr (replicate 32 1)"
    by (simp add: ReadFull_def)
  have len: "length (stub_hash (replicate 32 1)) = 64"
    by (rule stub_hash_length)
  have dg: "stub_hash (replicate 32 1) ! 0 = 1" "stub_hash (replicate 32 1) ! 1 = 1"
    "stub_hash (replicate 32 1) ! 31 = 1"
    by (simp_all add: stub_hash_def nth_append)
  from GenerateKey_clamps [of "Reader (replicate 40 1) EOF" "replicate 32 1" stub_hash
      stub_mult stub_encode, OF rd len]
  obtain res h where run:
    "GenerateKey stub_hash stub_mult stub_encode (Reader (replicate 40 1) EOF) = Inr res"
    and keys: "length (stub_encode (stub_mult h)) = 32 \<longrightarrow>
        publicKey res = Some (stub_encode (stub_mult h)) \<and>
        privateKey res = Some (replicate 32 1 @ stub_encode (stub_mult h))"
    and log: "calls res = [Call_sha512 (replicate 32 1), Call_GeScalarMultBase h]"
    and lh: "length h = 32"
    and h0: "h ! 0 = stub_hash (replicate 32 1) ! 0 AND 248"
    and h31: "h ! 31 = (stub_hash (replicate 32 1) ! 31 AND 127) OR 64"
    and mid: "\<forall>i. 0 < i \<and> i < 31 \<longrightarrow> h ! i = stub_hash (replicate 32 1) ! i"
    by blast
  have v0: "h ! 0 = 0" using h0 dg by simp
  have v31: "h ! 31 = 65" using h31 dg by simp
  have v1: "h ! 1 = 1" using mid dg by simp
  have pub: "stub_encode (stub_mult h) = rev h"
    using lh by (simp add: stub_encode_def stub_mult_def)
  have p0: "rev h ! 0 = 65" using lh v31 by (simp add: rev_nth)
  have p30: "rev h ! 30 = 1" using lh v1 by (simp add: rev_nth)
  have p31: "rev h ! 31 = 0" using lh v0 by (simp add: rev_nth)
  from keys lh have k: "publicKey res = Some (stub_encode (stub_mult h))"
    "privateKey res = Some (replicate 32 1 @ stub_encode (stub_mult h))"
    by (simp_all add: stub_encode_length)
  have "GenerateKey stub_hash stub_mult stub_encode (Reader (replicate 40 1) EOF) = Inr res \<and>
      calls res = [Call_sha512 (replicate 32 1), Call_GeScalarMultBase h] \<and>
      length h = 32 \<and> h ! 0 = 0 \<and> h ! 1 = 1 \<and> h ! 31 = 65 \<and>
      publicKey res = Some (stub_encode (stub_mult h)) \<and>
      privateKey res = Some (replicate 32 1 @ stub_encode (stub_mult h)) \<and>
      stub_encode (stub_mult h) = stub_encode (stub_mult h) \<and>
      stub_encode (stub_mult h) ! 0 = 65 \<and> stub_encode (stub_mult h) ! 30 = 1 \<and>
      stub_encode (stub_mult h) ! 31 = 0"
    using run log lh v0 v1 v31 k p0 p30 p31 unfolding pub by simp
  with rd len show ?thesis by blast
qed

text \<open>
  C5. On success \<open>GenerateKey\<close> returns a private key of 64 bytes whose first 32 bytes are
  the seed read from \<open>rand\<close> and whose last 32 bytes are the returned public key of 32
  bytes; the public key is the encoding (\<open>ToBytes\<close>) of the point that \<open>GeScalarMultBase\<close>
  yields for the clamped digest of the seed.
\<close>

theorem GenerateKey_keys:
  assumes "GenerateKey sha512 GeScalarMultBase ToBytes rand = Inr res" and "err res = None"
    and "\<And>A. length (ToBytes A) = 32"
  shows "\<exists>seed pub priv. ReadFull rand 32 = Inr seed \<and> seed = take 32 (avail rand) \<and>
     length seed = 32 \<and>
     publicKey res = Some pub \<and> privateKey res = Some priv \<and>
     length priv = 64 \<and> length pub = 32 \<and>
     take 32 priv = seed \<and> drop 32 priv = pub \<and>
     pub = ToBytes (GeScalarMultBase (clamp (sha512 seed)))"
proof -
  from GenerateKey_no_error [OF assms(1) assms(2)]
  obtain seed where rd: "ReadFull rand 32 = Inr seed" and len: "32 \<le> length (sha512 seed)"
    by blast
  let ?pub = "ToBytes (GeScalarMultBase (clamp (sha512 seed)))"
  have lp: "length ?pub = 32" by (rule assms(3))
  have ls: "length seed = 32" by (rule ReadFull_Inr(1) [OF rd])
  have st: "seed = take 32 (avail rand)" by (rule ReadFull_Inr(2) [OF rd])
  have cp: "copy_slice (replicate 32 0) ?pub = ?pub"
    using lp by (simp add: copy_slice_full)
  have res: "res = \<lparr>publicKey = Some ?pub, privateKey = Some (seed @ ?pub), err = None,
      calls = [Call_sha512 seed, Call_GeScalarMultBase (clamp (sha512 seed))]\<rparr>"
    using GenerateKey_success [of rand seed sha512 GeScalarMultBase ToBytes, OF rd len] assms(1)
    by (simp add: cp)
  show ?thesis
    apply (rule exI [of _ seed])
    apply (rule exI [of _ ?pub])
    apply (rule exI [of _ "seed @ ?pub"])
    using rd st ls lp res apply simp
    done
qed

theorem GenerateKey_keys_witness:
  "\<exists>res. GenerateKey stub_hash stub_mult stub_encode (Reader (replicate 40 1) EOF) = Inr res \<and>
     err res = None \<and>
     (\<exists>pub priv. publicKey res = Some pub \<and> privateKey res = Some priv \<and>
        length priv = 64 \<and> length pub = 32 \<and>
        take 32 priv = replicate 32 1 \<and> drop 32 priv = pub \<and>
        pub = stub_encode (stub_mult (clamp (stub_hash (replicate 32 1)))))"
proof -
  let ?rd = "Reader (replicate 40 1) EOF"
  have rd: "ReadFull ?rd 32 = Inr (replicate 32 1)"
    by (simp add: ReadFull_def)
  have len: "32 \<le> length (stub_hash (replicate 32 1))"
    by (simp add: stub_hash_length)
  note run = GenerateKey_success [of ?rd "replicate 32 1" stub_hash stub_mult stub_encode,
      OF rd len]
  have noerr: "err \<lparr>publicKey = Some (copy_slice (replicate 32 0)
             (stub_encode (stub_mult (clamp (stub_hash (replicate 32 1)))))),
          privateKey = Some (replicate 32 1 @ copy_slice (replicate 32 0)
             (stub_encode (stub_mult (clamp (stub_hash (replicate 32 1)))))),
          err = None,
          calls = [Call_sha512 (replicate 32 1),
             Call_GeScalarMultBase (clamp (stub_hash (replicate 32 1)))]\<rparr> = None"
    by simp
  from GenerateKey_keys [of stub_hash stub_mult stub_encode ?rd, OF run noerr stub_encode_length] rd
  show ?thesis
    unfolding run by auto
qed

text \<open>
  C10. If \<open>io.ReadFull\<close> returns an error (the reader cannot deliver 32 bytes),
  \<open>GenerateKey\<close> returns \<open>nil\<close> for the public and for the private key together with that
  error, and calls neither the hash nor the scalar multiplication.
\<close>

theorem GenerateKey_read_error:
  assumes "ReadFull rand 32 = Inl e"
  shows "length (avail rand) < 32 \<and>
     GenerateKey sha512 GeScalarMultBase ToBytes rand =
       Inr \<lparr>publicKey = None, privateKey = None, err = Some e, calls = []\<rparr>"
proof
  show "length (avail rand) < 32"
    using assms by (auto simp: ReadFull_def split: if_splits)
  show "GenerateKey sha512 GeScalarMultBase ToBytes rand =
       Inr \<lparr>publicKey = None, privateKey = None, err = Some e, calls = []\<rparr>"
    by (rule GenerateKey_failure [OF assms])
qed

theorem GenerateKey_read_error_witness:
  "ReadFull (Reader (replicate 31 7) EOF) 32 = Inl ErrUnexpectedEOF \<and>
   GenerateKey stub_hash stub_mult stub_encode (Reader (replicate 31 7) EOF) =
     Inr \<lparr>publicKey = None, privateKey = None, err = Some ErrUnexpectedEOF, calls = []\<rparr> \<and>
   ReadFull (Reader [] (ReadError ''entropy source failed'')) 32 =
     Inl (ReadError ''entropy source failed'') \<and>
   GenerateKey stub_hash stub_mult stub_encode (Reader [] (ReadError ''entropy source failed'')) =
     Inr \<lparr>publicKey = None, privateKey = None,
          err = Some (ReadError ''entropy source failed''), calls = []\<rparr>"
proof -
  have a: "ReadFull (Reader (replicate 31 7) EOF) 32 = Inl ErrUnexpectedEOF"
    by (simp add: ReadFull_def)
  have b: "ReadFull (Reader [] (ReadError ''entropy source failed'')) 32 =
     Inl (ReadError ''entropy source failed'')"
    by (simp add: ReadFull_def)
  from GenerateKey_read_error [OF a, of stub_hash stub_mult stub_encode]
    GenerateKey_read_error [OF b, of stub_hash stub_mult stub_encode] a b
  show ?thesis by blast
qed

section \<open>Proofs about the modelled parsers, \<open>VerifyRS\<close> and \<open>PrivKeyFromScalar\<close>\<close>

text \<open>
  C3. \<open>ParseSignature\<close> fails with \<open>InvalidLength\<close> on every buffer that is not exactly 64
  bytes long, shorter or longer, and succeeds on every buffer of exactly 64 bytes, whatever
  the pair \<open>(R, S)\<close> it holds.
\<close>

theorem ParseSignature_length:
  "(length bs \<noteq> 64 \<longrightarrow> ParseSignature bs = Inl InvalidLength) \<and>
   (length bs < 64 \<longrightarrow> ParseSignature bs = Inl InvalidLength) \<and>
   (64 < length bs \<longrightarrow> ParseSignature bs = Inl InvalidLength) \<and>
   (length bs = 64 \<longrightarrow>
      ParseSignature bs =
        Inr (Signature (int (be_decode (take 32 bs))) (int (be_decode (drop 32 bs)))))"
  by (simp add: ParseSignature_def)

theorem ParseSignature_length_witness:
  "length (replicate 63 (1::byte)) < 64 \<and>
   ParseSignature (replicate 63 1) = Inl InvalidLength \<and>
   64 < length (replicate 65 (1::byte)) \<and>
   ParseSignature (replicate 65 1) = Inl InvalidLength \<and>
   length (replicate 64 (255::byte)) = 64 \<and>
   (\<exists>sig. ParseSignature (replicate 64 255) = Inr sig)"
proof -
  have a: "length (replicate 63 (1::byte)) < 64" by simp
  have b: "64 < length (replicate 65 (1::byte))" by simp
  have c: "length (replicate 64 (255::byte)) = 64" by simp
  from ParseSignature_length [of "replicate 63 1"] a
  have ra: "ParseSignature (replicate 63 1) = Inl InvalidLength" by blast
  from ParseSignature_length [of "replicate 65 1"] b
  have rb: "ParseSignature (replicate 65 1) = Inl InvalidLength" by blast
  from ParseSignature_length [of "replicate 64 255"] c
  have rc: "\<exists>sig. ParseSignature (replicate 64 255) = Inr sig" by blast
  from a b c ra rb rc show ?thesis by blast
qed

text \<open>
  C7. \<open>ParsePubKey\<close> fails with \<open>InvalidLength\<close> on every buffer that is not exactly 32
  bytes long; in particular on a valid encoding with one byte appended (33 bytes) and on a
  valid encoding with one byte removed (31 bytes).
\<close>

theorem ParsePubKey_length:
  "(length bs \<noteq> 32 \<longrightarrow> ParsePubKey decode on_curve bs = Inl InvalidLength) \<and>
   (ParsePubKey decode on_curve enc = Inr P \<longrightarrow>
      length enc = 32 \<and>
      length (append_byte enc b) = 33 \<and>
      ParsePubKey decode on_curve (append_byte enc b) = Inl InvalidLength \<and>
      (pos < 32 \<longrightarrow>
         length (remove_byte enc pos) = 31 \<and>
         ParsePubKey decode on_curve (remove_byte enc pos) = Inl InvalidLength))"
proof (intro conjI impI)
  show "length bs \<noteq> 32 \<Longrightarrow> ParsePubKey decode on_curve bs = Inl InvalidLength"
    by (simp add: ParsePubKey_def)
next
  assume valid: "ParsePubKey decode on_curve enc = Inr P"
  then show len: "length enc = 32"
    by (auto simp: ParsePubKey_def split: if_splits)
  from len show "length (append_byte enc b) = 33"
    by (simp add: append_byte_def)
  from len show "ParsePubKey decode on_curve (append_byte enc b) = Inl InvalidLength"
    by (simp add: ParsePubKey_def append_byte_def)
  assume pos: "pos < 32"
  from len pos show short: "length (remove_byte enc pos) = 31"
    by (simp add: remove_byte_def min_def)
  then show "ParsePubKey decode on_curve (remove_byte enc pos) = Inl InvalidLength"
    by (simp add: ParsePubKey_def)
qed

theorem ParsePubKey_length_witness:
  "ParsePubKey (\<lambda>bs. Some bs) (\<lambda>P. True) (replicate 32 (9::byte)) = Inr (replicate 32 9) \<and>
   length (append_byte (replicate 32 (9::byte)) 1) = 33 \<and>
   ParsePubKey (\<lambda>bs. Some bs) (\<lambda>P. True) (append_byte (replicate 32 9) 1) = Inl InvalidLength \<and>
   (5::nat) < 32 \<and>
   length (remove_byte (replicate 32 (9::byte)) 5) = 31 \<and>
   ParsePubKey (\<lambda>bs. Some bs) (\<lambda>P. True) (remove_byte (replicate 32 9) 5) = Inl InvalidLength \<and>
   length ([] :: byte list) \<noteq> 32 \<and>
   ParsePubKey (\<lambda>bs. Some bs) (\<lambda>P. True) [] = Inl InvalidLength"
proof -
  have valid: "ParsePubKey (\<lambda>bs. Some bs) (\<lambda>P. True) (replicate 32 (9::byte)) = Inr (replicate 32 9)"
    by (simp add: ParsePubKey_def)
  have pos: "(5::nat) < 32" by simp
  have empty: "length ([] :: byte list) \<noteq> 32" by simp
  from ParsePubKey_length [of "[]" "\<lambda>bs. Some bs" "\<lambda>P. True" "replicate 32 9" "replicate 32 9" 1 5]
    valid pos empty
  show ?thesis by blast
qed

text \<open>
  C8. For every public key and message, \<open>VerifyRS\<close> answers false when \<open>R = 0\<close>, \<open>S = 0\<close>,
  \<open>R \<ge> N\<close> or \<open>S \<ge> N\<close>; the answer is a truth value, never an error.
\<close>

theorem VerifyRS_out_of_range:
  assumes "R = 0 \<or> S = 0 \<or> group_order C \<le> R \<or> group_order C \<le> S"
  shows "VerifyRS C pub message R S = False"
  using assms by (auto simp: VerifyRS_def Let_def)

theorem VerifyRS_out_of_range_witness:
  "VerifyRS stub_curve 3 [1, 2] 0 2 = False \<and>
   VerifyRS stub_curve 3 [1, 2] 5 0 = False \<and>
   group_order stub_curve \<le> 7 \<and>
   VerifyRS stub_curve 3 [1, 2] 7 2 = False \<and>
   VerifyRS stub_curve 3 [1, 2] 5 12 = False \<and>
   VerifyRS stub_curve 3 [1, 2] 5 2 = True"
proof -
  have n: "group_order stub_curve \<le> 7" "group_order stub_curve \<le> 12"
    by (simp_all add: stub_curve_def)
  have a: "VerifyRS stub_curve 3 [1, 2] 0 2 = False"
    by (rule VerifyRS_out_of_range) simp
  have b: "VerifyRS stub_curve 3 [1, 2] 5 0 = False"
    by (rule VerifyRS_out_of_range) simp
  have c: "VerifyRS stub_curve 3 [1, 2] 7 2 = False"
    by (rule VerifyRS_out_of_range) (simp add: n)
  have d: "VerifyRS stub_curve 3 [1, 2] 5 12 = False"
    by (rule VerifyRS_out_of_range) (simp add: n)
  have e: "VerifyRS stub_curve 3 [1, 2] 5 2 = True"
    by (simp add: VerifyRS_def stub_curve_def Let_def)
  from a b c d e n show ?thesis by blast
qed

subsection \<open>Scalars and their 32 bytes\<close>

lemma length_le_encode: "length (le_encode n d) = n"
  by (induction n arbitrary: d) simp_all

lemma le_decode_encode: "d < 256 ^ n \<Longrightarrow> le_decode (le_encode n d) = d"
proof (induction n arbitrary: d)
  case 0
  then show ?case by simp
next
  case (Suc n)
  have "d div 256 < 256 ^ n"
    using Suc.prems by (simp add: less_mult_imp_div_less mult.commute)
  then have "le_decode (le_encode n (d div 256)) = d div 256"
    by (rule Suc.IH)
  moreover have "unat (word_of_nat (d mod 256) :: byte) = d mod 256"
    by (simp add: unat_of_nat)
  ultimately show ?case by simp
qed

lemma length_scalar_encode: "length (scalar_encode ord d) = 32"
  by (cases ord) (simp_all add: be_encode_def length_le_encode)

lemma scalar_decode_encode: "d < 2 ^ 256 \<Longrightarrow> scalar_decode ord (scalar_encode ord d) = d"
proof -
  assume "d < 2 ^ 256"
  then have "d < 256 ^ 32" by simp
  then have "le_decode (le_encode 32 d) = d" by (rule le_decode_encode)
  then show ?thesis
    by (cases ord) (simp_all add: be_decode_def be_encode_def)
qed

text \<open>
  C6. For every valid private key \<open>k\<close> (a scalar \<open>D\<close> with \<open>0 < D < N\<close>),
  \<open>PrivKeyFromScalar(k.Serialize())\<close> succeeds and yields a private key with the same scalar.
\<close>

theorem PrivKeyFromScalar_Serialize:
  assumes "0 < GetD k" and "GetD k < N" and "N \<le> 2 ^ 256"
  shows "\<exists>k' P. PrivKeyFromScalar ord N scalar_mult_base (Serialize ord k) = Inr (k', P) \<and>
     GetD k' = GetD k"
proof -
  have "GetD k < 2 ^ 256" using assms(2,3) by simp
  then have "scalar_decode ord (scalar_encode ord (GetD k)) = GetD k"
    by (rule scalar_decode_encode)
  then show ?thesis
    using assms(1,2)
    by (simp add: PrivKeyFromScalar_def Serialize_def length_scalar_encode Let_def)
qed

theorem PrivKeyFromScalar_Serialize_witness:
  "(0::nat) < GetD (PrivateKey 5 (5::nat)) \<and> GetD (PrivateKey 5 (5::nat)) < ed25519_order \<and>
   ed25519_order \<le> 2 ^ 256 \<and>
   (\<exists>k' P. PrivKeyFromScalar BigEndian ed25519_order (\<lambda>d. d) (Serialize BigEndian (PrivateKey 5 (5::nat)))
       = Inr (k', P) \<and> GetD k' = 5) \<and>
   (\<exists>k' P. PrivKeyFromScalar LittleEndian ed25519_order (\<lambda>d. d) (Serialize LittleEndian (PrivateKey 5 (5::nat)))
       = Inr (k', P) \<and> GetD k' = 5)"
proof -
  have a: "(0::nat) < GetD (PrivateKey 5 (5::nat))" by simp
  have b: "GetD (PrivateKey 5 (5::nat)) < ed25519_order" by (simp add: ed25519_order_def)
  have c: "ed25519_order \<le> 2 ^ 256" by (simp add: ed25519_order_def)
  have g: "GetD (PrivateKey 5 (5::nat)) = 5" by simp
  from PrivKeyFromScalar_Serialize [OF a b c, of BigEndian "\<lambda>d. d"]
    PrivKeyFromScalar_Serialize [OF a b c, of LittleEndian "\<lambda>d. d"] a b c
  show ?thesis unfolding g by blast
qed

end
